theory Spec2Isabelle
  imports Main "HOL-Library.Word" "HOL-Library.Monad_Syntax" "HOL-Library.Sublist"
begin

unbundle bit_operations_syntax

section \<open>The platform layer\<close>

text \<open>
  The library \<^verbatim>\<open>src/sreg.cpp\<close> drives a chain of 74HC595 shift registers through
  the Arduino calls \<^verbatim>\<open>pinMode\<close> and \<^verbatim>\<open>digitalWrite\<close>. Both are
  opaque to the library: the model records each call, with the arguments the library
  passes, in a trace. A pin number is a \<^verbatim>\<open>uint8_t\<close>. The level passed to
  \<^verbatim>\<open>digitalWrite\<close> is an \<^verbatim>\<open>int\<close> expression (\<^verbatim>\<open>0\<close>, \<^verbatim>\<open>1\<close>
  or the result of \<^verbatim>\<open>sreg_test_bit\<close>), so the event carries a value of the
  integer type \<open>'i\<close>. \<^verbatim>\<open>OUTPUT\<close> is a macro of \<^verbatim>\<open>Arduino.h\<close>, kept
  abstract.
\<close>

type_synonym pin = "8 word"

datatype pin_mode = OUTPUT

datatype 'i event = PinMode pin pin_mode | DigitalWrite pin 'i

section \<open>The static variables\<close>

text \<open>
  The file-scope variables \<^verbatim>\<open>ds_\<close>, \<^verbatim>\<open>shcp_\<close>, \<^verbatim>\<open>stcp_\<close>,
  \<^verbatim>\<open>sreg_count_\<close> and \<^verbatim>\<open>shcp_reg_\<close>, together with the trace of platform
  calls made so far (oldest first). The C++ type \<^verbatim>\<open>int\<close> is \<open>'a word\<close> for a
  width \<open>LENGTH('a)\<close> left open: 16 bits on AVR boards, 32 bits on ARM and ESP
  boards. It is read as a signed number with \<open>sint\<close>.
\<close>

record 'i statics =
  ds :: pin
  shcp :: pin
  stcp :: pin
  sreg_count :: 'i
  shcp_reg :: 'i
  trace :: "'i event list"

type_synonym 'a sreg = "'a word statics"

text \<open>Static storage is zero-initialised before \<^verbatim>\<open>sreg_init\<close> runs.\<close>

definition initial_state :: "'a::len sreg" where
  "initial_state = \<lparr>ds = 0, shcp = 0, stcp = 0, sreg_count = 0, shcp_reg = 0, trace = []\<rparr>"

definition pinMode :: "pin \<Rightarrow> pin_mode \<Rightarrow> 'a::len sreg \<Rightarrow> 'a sreg" where
  "pinMode p m s = s\<lparr>trace := trace s @ [PinMode p m]\<rparr>"

definition digitalWrite :: "pin \<Rightarrow> 'a::len word \<Rightarrow> 'a sreg \<Rightarrow> 'a sreg" where
  "digitalWrite p v s = s\<lparr>trace := trace s @ [DigitalWrite p v]\<rparr>"

section \<open>The integer operators of C++\<close>

text \<open>
  \<^verbatim>\<open>a << n\<close> on \<^verbatim>\<open>int\<close>: the behaviour is undefined when \<open>n\<close> is negative or
  not below the width of \<^verbatim>\<open>int\<close>; that is the result \<open>None\<close>. Otherwise the
  bits are shifted and the result is reduced to the width (GCC, C++20).
\<close>

definition shl :: "'a::len word \<Rightarrow> 'a word \<Rightarrow> 'a word option" where
  "shl a n = (if 0 \<le> sint n \<and> sint n < int LENGTH('a)
              then Some (push_bit (nat (sint n)) a) else None)"

text \<open>\<^verbatim>\<open>a - b\<close> on \<^verbatim>\<open>int\<close>: signed overflow is undefined, the result \<open>None\<close>.\<close>

definition minus_int :: "'a::len word \<Rightarrow> 'a word \<Rightarrow> 'a word option" where
  "minus_int a b =
     (if - (2 ^ (LENGTH('a) - 1)) \<le> sint a - sint b \<and> sint a - sint b < 2 ^ (LENGTH('a) - 1)
      then Some (a - b) else None)"

text \<open>\<^verbatim>\<open>!x\<close>, as the \<^verbatim>\<open>int\<close> 0 or 1 it is promoted to.\<close>

definition lnot :: "'a::len word \<Rightarrow> 'a word" where
  "lnot x = (if x = 0 then 1 else 0)"

section \<open>The library\<close>

text \<open>\<^verbatim>\<open>return !!(shcp_reg_ & 1 << pin);\<close>\<close>

definition sreg_test_bit :: "'a::len word \<Rightarrow> 'a sreg \<Rightarrow> 'a word option" where
  "sreg_test_bit pin s = do {
     m \<leftarrow> shl 1 pin;
     Some (lnot (lnot (shcp_reg s AND m)))
   }"

text \<open>\<^verbatim>\<open>return shcp_reg_;\<close>\<close>

definition sreg_test_all_bits :: "'a::len sreg \<Rightarrow> 'a word" where
  "sreg_test_all_bits s = shcp_reg s"

text \<open>\<^verbatim>\<open>shcp_reg_ = (shcp_reg_ & ~(1 << pin)) | (!!bit_value << pin);\<close>\<close>

definition sreg_write_bit :: "'a::len word \<Rightarrow> 'a word \<Rightarrow> 'a sreg \<Rightarrow> 'a sreg option" where
  "sreg_write_bit pin bit_value s = do {
     m \<leftarrow> shl 1 pin;
     b \<leftarrow> shl (lnot (lnot bit_value)) pin;
     Some (s\<lparr>shcp_reg := (shcp_reg s AND NOT m) OR b\<rparr>)
   }"

text \<open>\<^verbatim>\<open>sreg_write_bit(pin, !sreg_test_bit(pin));\<close>\<close>

definition sreg_invert_bit :: "'a::len word \<Rightarrow> 'a sreg \<Rightarrow> 'a sreg option" where
  "sreg_invert_bit pin s = do {
     t \<leftarrow> sreg_test_bit pin s;
     sreg_write_bit pin (lnot t) s
   }"

text \<open>Three writes: latch clock, data, shift clock, each low.\<close>

definition sreg_latch_low :: "'a::len sreg \<Rightarrow> 'a sreg" where
  "sreg_latch_low s =
     digitalWrite (shcp s) 0 (digitalWrite (ds s) 0 (digitalWrite (stcp s) 0 s))"

text \<open>
  The body of the \<^verbatim>\<open>for\<close> loop of \<^verbatim>\<open>sreg_latch_high\<close>, from the value of
  \<open>i\<close> on. The test is \<^verbatim>\<open>i >= 0\<close>; \<^verbatim>\<open>i--\<close> runs only when \<open>i\<close> is not
  negative, so it cannot overflow.
\<close>

lemma sint_word_of_int_eq:
  "- (2 ^ (LENGTH('a) - 1)) \<le> k \<Longrightarrow> k < 2 ^ (LENGTH('a) - 1) \<Longrightarrow>
     sint (word_of_int k :: 'a::len word) = k"
  by (simp add: sint_sbintrunc' signed_take_bit_int_eq_self)

lemma sint_dec:
  fixes i :: "'a::len word"
  assumes "0 \<le> sint i"
  shows "sint (i - 1) = sint i - 1"
proof -
  have b: "sint i < 2 ^ (LENGTH('a) - 1)" by (rule sint_lt)
  have "i - 1 = word_of_int (sint i - 1)" by simp
  moreover have "sint (word_of_int (sint i - 1) :: 'a word) = sint i - 1"
    using assms b by (intro sint_word_of_int_eq) auto
  ultimately show ?thesis by simp
qed

function sreg_latch_high_loop :: "'a::len word \<Rightarrow> 'a sreg \<Rightarrow> 'a sreg option" where
  "sreg_latch_high_loop i s =
     (if 0 \<le> sint i then
        (let s1 = digitalWrite (shcp s) 0 s in
         case sreg_test_bit i s1 of
           None \<Rightarrow> None
         | Some b \<Rightarrow>
             sreg_latch_high_loop (i - 1)
               (digitalWrite (ds s1) 0 (digitalWrite (shcp s1) 1 (digitalWrite (ds s1) b s1))))
      else Some s)"
  by pat_completeness auto
termination
  by (relation "measure (\<lambda>(i, s). nat (sint i + 1))") (simp_all add: sint_dec)

declare sreg_latch_high_loop.simps [simp del]

text \<open>
  \<^verbatim>\<open>for (int i = (4 << sreg_count_) - 1; i >= 0; i--) { ... }\<close> and then the
  latch clock high.
\<close>

definition sreg_latch_high :: "'a::len sreg \<Rightarrow> 'a sreg option" where
  "sreg_latch_high s = do {
     w \<leftarrow> shl 4 (sreg_count s);
     i \<leftarrow> minus_int w 1;
     s' \<leftarrow> sreg_latch_high_loop i s;
     Some (digitalWrite (stcp s') 1 s')
   }"

text \<open>\<^verbatim>\<open>shcp_reg_ = bits; sreg_latch_low(); sreg_latch_high();\<close>\<close>

definition sreg_write_bits :: "'a::len word \<Rightarrow> 'a sreg \<Rightarrow> 'a sreg option" where
  "sreg_write_bits bits s = sreg_latch_high (sreg_latch_low (s\<lparr>shcp_reg := bits\<rparr>))"

definition sreg_init ::
  "pin \<Rightarrow> pin \<Rightarrow> pin \<Rightarrow> 'a::len word \<Rightarrow> 'a word \<Rightarrow> 'a sreg \<Rightarrow> 'a sreg option" where
  "sreg_init ds_arg shcp_arg stcp_arg init_value count_arg s =
     (let s1 = s\<lparr>ds := ds_arg, shcp := shcp_arg, stcp := stcp_arg, sreg_count := count_arg\<rparr>;
          s2 = pinMode (ds s1) OUTPUT s1;
          s3 = pinMode (shcp s2) OUTPUT s2;
          s4 = pinMode (stcp s3) OUTPUT s3
      in sreg_write_bits init_value s4)"

section \<open>The public interface\<close>

text \<open>
  The eight functions that \<^verbatim>\<open>src/sreg.h\<close> declares, as one call type, and the
  result of a call: the value returned, if any, and the statics after it.
\<close>

datatype 'i call =
    Init pin pin pin 'i 'i
  | TestBit 'i
  | TestAllBits
  | WriteBit 'i 'i
  | InvertBit 'i
  | WriteBits 'i
  | LatchLow
  | LatchHigh

datatype 'i ret = Void | Value 'i

fun run_call :: "'a::len word call \<Rightarrow> 'a sreg \<Rightarrow> ('a word ret \<times> 'a sreg) option" where
  "run_call (Init d c l v n) s = map_option (Pair Void) (sreg_init d c l v n s)"
| "run_call (TestBit p) s = map_option (\<lambda>b. (Value b, s)) (sreg_test_bit p s)"
| "run_call TestAllBits s = Some (Value (sreg_test_all_bits s), s)"
| "run_call (WriteBit p v) s = map_option (Pair Void) (sreg_write_bit p v s)"
| "run_call (InvertBit p) s = map_option (Pair Void) (sreg_invert_bit p s)"
| "run_call (WriteBits v) s = map_option (Pair Void) (sreg_write_bits v s)"
| "run_call LatchLow s = Some (Void, sreg_latch_low s)"
| "run_call LatchHigh s = map_option (Pair Void) (sreg_latch_high s)"

section \<open>The write sequences the specification describes\<close>

text \<open>
  The width \<open>W = 4 << chainLength\<close>, that is \<open>4 \<times> 2^chainLength\<close>, as a natural
  number.
\<close>

definition spec_width :: "'a::len sreg \<Rightarrow> nat" where
  "spec_width s = 4 * 2 ^ nat (sint (sreg_count s))"

text \<open>
  The four writes of bit index \<open>i\<close>: shift clock low, data to the value of bit \<open>i\<close>
  of the in-memory state, shift clock high, data low.
\<close>

definition spec_shift_writes :: "'a::len sreg \<Rightarrow> nat \<Rightarrow> 'a word event list" where
  "spec_shift_writes s i =
     [DigitalWrite (shcp s) 0,
      DigitalWrite (ds s) (of_bool (bit (shcp_reg s) i)),
      DigitalWrite (shcp s) 1,
      DigitalWrite (ds s) 0]"

text \<open>Bit indices \<open>W - 1\<close> down to \<open>0\<close>, then the latch clock high, once.\<close>

definition spec_latch_high_writes :: "'a::len sreg \<Rightarrow> 'a word event list" where
  "spec_latch_high_writes s =
     concat (map (spec_shift_writes s) (rev [0..<spec_width s])) @ [DigitalWrite (stcp s) 1]"

text \<open>Latch clock, data and shift clock low.\<close>

definition spec_latch_low_writes :: "'a::len sreg \<Rightarrow> 'a word event list" where
  "spec_latch_low_writes s =
     [DigitalWrite (stcp s) 0, DigitalWrite (ds s) 0, DigitalWrite (shcp s) 0]"

text \<open>The writes of a trace that go to pin \<open>p\<close>, in order.\<close>

fun writes_to :: "pin \<Rightarrow> 'i event list \<Rightarrow> 'i event list" where
  "writes_to p [] = []"
| "writes_to p (PinMode q m # es) = writes_to p es"
| "writes_to p (DigitalWrite q v # es) =
     (if q = p then DigitalWrite q v # writes_to p es else writes_to p es)"

section \<open>Runs of calls and what the hardware has seen\<close>

text \<open>A sequence of calls, each on the statics its predecessor left; the run stops at a
  call whose behaviour is undefined.\<close>

fun run_calls :: "'a::len word call list \<Rightarrow> 'a sreg \<Rightarrow> 'a sreg option" where
  "run_calls [] s = Some s"
| "run_calls (c # cs) s = (case run_call c s of None \<Rightarrow> None | Some (r, s') \<Rightarrow> run_calls cs s')"

text \<open>
  The most recent platform calls are a complete shift-and-latch sequence of the current
  in-memory state: what the hardware was last given is bits \<open>W - 1\<close> to \<open>0\<close> of the
  in-memory state as it is now.
\<close>

definition in_sync :: "'a::len sreg \<Rightarrow> bool" where
  "in_sync s = suffix (spec_latch_high_writes s) (trace s)"

text \<open>The calls that end with \<^verbatim>\<open>sreg_latch_high\<close>.\<close>

fun pushes :: "'i call \<Rightarrow> bool" where
  "pushes (Init d c l v n) = True"
| "pushes (WriteBits v) = True"
| "pushes LatchHigh = True"
| "pushes c = False"

text \<open>The calls whose body reaches \<^verbatim>\<open>digitalWrite\<close>.\<close>

fun emits_writes :: "'i call \<Rightarrow> bool" where
  "emits_writes (Init d c l v n) = True"
| "emits_writes (WriteBits v) = True"
| "emits_writes LatchLow = True"
| "emits_writes LatchHigh = True"
| "emits_writes c = False"

text \<open>The two calls that assign \<^verbatim>\<open>shcp_reg_\<close> and do nothing else.\<close>

fun memory_only :: "'i call \<Rightarrow> bool" where
  "memory_only (WriteBit p v) = True"
| "memory_only (InvertBit p) = True"
| "memory_only c = False"

section \<open>Facts about the operators and the shift loop\<close>

lemma lnot_lnot: "lnot (lnot x) = of_bool (x \<noteq> 0)"
  by (simp add: lnot_def)

lemma shl_Some_iff:
  "shl a n = Some r \<longleftrightarrow> 0 \<le> sint n \<and> sint n < int LENGTH('a) \<and> r = push_bit (nat (sint n)) (a :: 'a::len word)"
  by (auto simp: shl_def)

lemma test_bit_eq:
  fixes pin :: "'a::len word"
  shows "sreg_test_bit pin s =
     (if 0 \<le> sint pin \<and> sint pin < int LENGTH('a)
      then Some (of_bool (bit (shcp_reg s) (nat (sint pin)))) else None)"
  by (simp add: sreg_test_bit_def shl_def lnot_lnot bit_iff_and_push_bit_not_eq_0)

lemma write_bit_eq:
  fixes pin :: "'a::len word"
  shows "sreg_write_bit pin v s =
     (if 0 \<le> sint pin \<and> sint pin < int LENGTH('a)
      then Some (s\<lparr>shcp_reg := (shcp_reg s AND NOT (push_bit (nat (sint pin)) 1))
                                   OR push_bit (nat (sint pin)) (of_bool (v \<noteq> 0))\<rparr>)
      else None)"
  by (simp add: sreg_write_bit_def shl_def lnot_lnot)

lemma bit_written:
  fixes x :: "'a::len word"
  assumes "n < LENGTH('a)"
  shows "bit ((x AND NOT (push_bit n 1)) OR push_bit n (of_bool b)) j \<longleftrightarrow> (if j = n then b else bit x j)"
  using assms by (auto simp: bit_simps dest: bit_imp_le_length)

lemma spec_shift_writes_trace [simp]:
  "spec_shift_writes (s\<lparr>trace := t\<rparr>) = spec_shift_writes s"
  by (rule ext) (simp add: spec_shift_writes_def)

lemma latch_high_loop_ok:
  fixes i :: "'a::len word"
  shows "sint i = int k - 1 \<Longrightarrow> k \<le> LENGTH('a) \<Longrightarrow>
    sreg_latch_high_loop i s =
      Some (s\<lparr>trace := trace s @ concat (map (spec_shift_writes s) (rev [0..<k]))\<rparr>)"
proof (induction k arbitrary: i s)
  case 0
  then show ?case by (simp add: sreg_latch_high_loop.simps)
next
  case (Suc k)
  from Suc.prems have i: "sint i = int k" "0 \<le> sint i" "k < LENGTH('a)" by simp_all
  let ?s1 = "digitalWrite (shcp s) 0 s"
  let ?b = "of_bool (bit (shcp_reg s) k) :: 'a word"
  let ?s4 = "digitalWrite (ds ?s1) 0 (digitalWrite (shcp ?s1) 1 (digitalWrite (ds ?s1) ?b ?s1))"
  have tb: "sreg_test_bit i ?s1 = Some ?b"
    using i by (simp add: test_bit_eq digitalWrite_def)
  have "sint (i - 1) = int k - 1" using i by (simp add: sint_dec)
  then have ih: "sreg_latch_high_loop (i - 1) ?s4 =
      Some (?s4\<lparr>trace := trace ?s4 @ concat (map (spec_shift_writes ?s4) (rev [0..<k]))\<rparr>)"
    using Suc.prems by (intro Suc.IH) simp_all
  have sw: "spec_shift_writes s k = [DigitalWrite (shcp s) 0, DigitalWrite (ds s) ?b,
      DigitalWrite (shcp s) 1, DigitalWrite (ds s) 0]"
    by (simp add: spec_shift_writes_def)
  have "sreg_latch_high_loop i s = sreg_latch_high_loop (i - 1) ?s4"
    using i tb by (subst sreg_latch_high_loop.simps) (simp add: Let_def)
  also note ih
  finally show ?case
    by (simp add: sw digitalWrite_def)
qed


lemma less_two_power_pred: "3 \<le> n \<Longrightarrow> n < 2 ^ (n - 1)" for n :: nat
proof (induction n rule: dec_induct)
  case base
  show ?case by simp
next
  case (step n)
  then show ?case by (cases n) simp_all
qed

lemma sint_of_nat_small:
  assumes "n \<le> LENGTH('a)" "3 \<le> LENGTH('a)"
  shows "sint (of_nat n :: 'a::len word) = int n"
proof -
  have "LENGTH('a) < 2 ^ (LENGTH('a) - 1)" using assms(2) by (rule less_two_power_pred)
  with assms(1) have "n < 2 ^ (LENGTH('a) - 1)" by simp
  then have "int n < 2 ^ (LENGTH('a) - 1)"
    by (metis of_nat_less_iff of_nat_numeral of_nat_power)
  moreover have "- (2 ^ (LENGTH('a) - 1)) \<le> int n"
    by (rule order_trans [of _ 0]) simp_all
  ultimately have "sint (word_of_int (int n) :: 'a word) = int n"
    by (intro sint_word_of_int_eq)
  then show ?thesis by simp
qed

lemma spec_width_bounds:
  fixes s :: "'a::len sreg"
  assumes "spec_width s \<le> LENGTH('a)"
  shows "nat (sint (sreg_count s)) < LENGTH('a)" and "4 \<le> LENGTH('a)"
proof -
  let ?l = "nat (sint (sreg_count s))"
  have "?l < 2 ^ ?l" by simp
  then have "?l < 4 * 2 ^ ?l" by linarith
  with assms show "?l < LENGTH('a)" by (simp add: spec_width_def)
  have "(1::nat) \<le> 2 ^ ?l" by simp
  then have "4 \<le> spec_width s" by (simp add: spec_width_def)
  with assms show "4 \<le> LENGTH('a)" by simp
qed

lemma latch_high_ok:
  fixes s :: "'a::len sreg"
  assumes "0 \<le> sint (sreg_count s)" and "spec_width s \<le> LENGTH('a)"
  shows "sreg_latch_high s = Some (s\<lparr>trace := trace s @ spec_latch_high_writes s\<rparr>)"
proof -
  let ?l = "nat (sint (sreg_count s))"
  let ?w = "push_bit ?l 4 :: 'a word"
  note b = spec_width_bounds [OF assms(2)]
  have w: "?w = of_nat (spec_width s)"
    by (simp add: push_bit_eq_mult spec_width_def)
  have sw: "sint ?w = int (spec_width s)"
    unfolding w using assms(2) b(2) by (intro sint_of_nat_small) simp_all
  have one: "sint (1 :: 'a word) = 1" using b(2) by simp
  have shl: "shl 4 (sreg_count s) = Some ?w"
    using assms(1) b(1) by (simp add: shl_def)
  have "sint ?w - sint (1 :: 'a word) < 2 ^ (LENGTH('a) - 1)"
    using sint_lt [of ?w] one by linarith
  moreover have "- (2 ^ (LENGTH('a) - 1)) \<le> sint ?w - sint (1 :: 'a word)"
    using sint_ge [of "?w - 1"] sw one by (simp add: sint_dec)
  ultimately have sub: "minus_int ?w 1 = Some (?w - 1)"
    unfolding minus_int_def by (simp only: simp_thms if_True)
  have "sint (?w - 1) = int (spec_width s) - 1"
    using sw by (simp add: sint_dec)
  then have loop: "sreg_latch_high_loop (?w - 1) s =
      Some (s\<lparr>trace := trace s @ concat (map (spec_shift_writes s) (rev [0..<spec_width s]))\<rparr>)"
    using assms(2) by (rule latch_high_loop_ok)
  show ?thesis
    by (simp add: sreg_latch_high_def shl sub loop digitalWrite_def spec_latch_high_writes_def)
qed


lemma writes_to_append [simp]: "writes_to p (xs @ ys) = writes_to p xs @ writes_to p ys"
  by (induction p xs rule: writes_to.induct) simp_all

lemma writes_to_concat: "writes_to p (concat xss) = concat (map (writes_to p) xss)"
  by (induction xss) simp_all

lemma latch_writes_of_push:
  assumes "stcp s \<noteq> ds s" and "stcp s \<noteq> shcp s"
  shows "writes_to (stcp s) (spec_latch_high_writes s) = [DigitalWrite (stcp s) 1]"
proof -
  have "writes_to (stcp s) (spec_shift_writes s i) = []" for i
    using assms by (simp add: spec_shift_writes_def)
  then have "writes_to (stcp s) (concat (map (spec_shift_writes s) js)) = []" for js
    by (induction js) simp_all
  then show ?thesis
    by (simp add: spec_latch_high_writes_def)
qed

lemma data_writes_of_push:
  assumes "ds s \<noteq> shcp s" and "ds s \<noteq> stcp s"
  shows "writes_to (ds s) (spec_latch_high_writes s) =
     concat (map (\<lambda>i. [DigitalWrite (ds s) (of_bool (bit (shcp_reg s) i)), DigitalWrite (ds s) 0])
                 (rev [0..<spec_width s]))"
proof -
  have "writes_to (ds s) \<circ> spec_shift_writes s =
      (\<lambda>i. [DigitalWrite (ds s) (of_bool (bit (shcp_reg s) i)), DigitalWrite (ds s) 0])"
    using assms by (auto simp: spec_shift_writes_def fun_eq_iff)
  then show ?thesis
    using assms by (simp add: spec_latch_high_writes_def writes_to_concat)
qed

lemma spec_width_pos: "0 < spec_width s"
  by (simp add: spec_width_def)

lemma rev_upt_pos: "0 < n \<Longrightarrow> rev [0..<n] = (n - 1) # rev [0..<n - 1]"
  by (cases n) simp_all

lemma sint_nat_inj:
  fixes i j :: "'a::len word"
  assumes "0 \<le> sint i" "0 \<le> sint j" "i \<noteq> j"
  shows "nat (sint j) \<noteq> nat (sint i)"
  using assms by (auto simp: word_eq_iff_signed [where ?'a = int] nat_eq_iff)

lemma latch_high_loop_frame:
  "sreg_latch_high_loop i s = Some s' \<Longrightarrow> \<exists>ws. s' = s\<lparr>trace := trace s @ ws\<rparr>"
proof (induction i s rule: sreg_latch_high_loop.induct)
  case (1 i s)
  show ?case
  proof (cases "0 \<le> sint i")
    case False
    with "1.prems" have "s' = s" by (simp add: sreg_latch_high_loop.simps)
    then have "s' = s\<lparr>trace := trace s @ []\<rparr>" by simp
    then show ?thesis by blast
  next
    case True
    let ?s1 = "digitalWrite (shcp s) 0 s"
    from True "1.prems" obtain b where b: "sreg_test_bit i ?s1 = Some b"
      by (subst (asm) sreg_latch_high_loop.simps) (auto simp: Let_def split: option.splits)
    let ?s4 = "digitalWrite (ds ?s1) 0 (digitalWrite (shcp ?s1) 1 (digitalWrite (ds ?s1) b ?s1))"
    from True b "1.prems" have "sreg_latch_high_loop (i - 1) ?s4 = Some s'"
      by (subst (asm) sreg_latch_high_loop.simps) (simp add: Let_def)
    with "1.IH" [OF True refl b] obtain ws where "s' = ?s4\<lparr>trace := trace ?s4 @ ws\<rparr>"
      by blast
    then have "s' = s\<lparr>trace := trace s @
        ([DigitalWrite (shcp s) 0, DigitalWrite (ds s) b, DigitalWrite (shcp s) 1, DigitalWrite (ds s) 0] @ ws)\<rparr>"
      by (simp add: digitalWrite_def)
    then show ?thesis by blast
  qed
qed

lemma latch_high_frame:
  assumes "sreg_latch_high s = Some s'"
  shows "\<exists>ws. s' = s\<lparr>trace := trace s @ ws @ [DigitalWrite (stcp s) 1]\<rparr>"
proof -
  from assms obtain i s1 where "sreg_latch_high_loop i s = Some s1"
    and s': "s' = digitalWrite (stcp s1) 1 s1"
    by (auto simp: sreg_latch_high_def split: Option.bind_splits)
  from latch_high_loop_frame [OF this(1)] obtain ws where "s1 = s\<lparr>trace := trace s @ ws\<rparr>"
    by blast
  with s' have "s' = s\<lparr>trace := trace s @ ws @ [DigitalWrite (stcp s) 1]\<rparr>"
    by (simp add: digitalWrite_def)
  then show ?thesis by blast
qed

lemma write_bits_frame:
  assumes "sreg_write_bits x s = Some s'"
  shows "\<exists>ws. s' = s\<lparr>shcp_reg := x,
      trace := trace s @ spec_latch_low_writes s @ ws @ [DigitalWrite (stcp s) 1]\<rparr>"
proof -
  let ?s0 = "sreg_latch_low (s\<lparr>shcp_reg := x\<rparr>)"
  from assms have "sreg_latch_high ?s0 = Some s'" by (simp add: sreg_write_bits_def)
  from latch_high_frame [OF this] obtain ws
    where "s' = ?s0\<lparr>trace := trace ?s0 @ ws @ [DigitalWrite (stcp ?s0) 1]\<rparr>" by blast
  then have "s' = s\<lparr>shcp_reg := x,
      trace := trace s @ spec_latch_low_writes s @ ws @ [DigitalWrite (stcp s) 1]\<rparr>"
    by (simp add: sreg_latch_low_def digitalWrite_def spec_latch_low_writes_def)
  then show ?thesis by blast
qed

lemma spec_width_update [simp]:
  "spec_width (s\<lparr>trace := t\<rparr>) = spec_width s"
  "spec_width (s\<lparr>shcp_reg := x\<rparr>) = spec_width s"
  by (simp_all add: spec_width_def)

lemma spec_latch_high_writes_trace [simp]:
  "spec_latch_high_writes (s\<lparr>trace := t\<rparr>) = spec_latch_high_writes s"
  by (simp add: spec_latch_high_writes_def)

lemma write_bits_ok:
  fixes s :: "'a::len sreg"
  assumes "0 \<le> sint (sreg_count s)" and "spec_width s \<le> LENGTH('a)"
  shows "sreg_write_bits x s =
    Some (s\<lparr>shcp_reg := x,
            trace := trace s @ spec_latch_low_writes s @ spec_latch_high_writes (s\<lparr>shcp_reg := x\<rparr>)\<rparr>)"
proof -
  let ?s0 = "sreg_latch_low (s\<lparr>shcp_reg := x\<rparr>)"
  have s0: "?s0 = s\<lparr>shcp_reg := x, trace := trace s @ spec_latch_low_writes s\<rparr>"
    by (simp add: sreg_latch_low_def digitalWrite_def spec_latch_low_writes_def)
  have "0 \<le> sint (sreg_count ?s0)" and "spec_width ?s0 \<le> LENGTH('a)"
    using assms by (simp_all add: s0)
  from latch_high_ok [OF this] show ?thesis
    by (simp add: sreg_write_bits_def s0)
qed

lemma init_unfold:
  "sreg_init d c l v n s =
     sreg_write_bits v (s\<lparr>ds := d, shcp := c, stcp := l, sreg_count := n,
        trace := trace s @ [PinMode d OUTPUT, PinMode c OUTPUT, PinMode l OUTPUT]\<rparr>)"
  by (simp add: sreg_init_def pinMode_def Let_def)

lemma init_frame:
  assumes "sreg_init d c l v n s = Some s'"
  shows "\<exists>ws. s' = \<lparr>ds = d, shcp = c, stcp = l, sreg_count = n, shcp_reg = v,
      trace = trace s @ [PinMode d OUTPUT, PinMode c OUTPUT, PinMode l OUTPUT,
                         DigitalWrite l 0, DigitalWrite d 0, DigitalWrite c 0] @ ws @ [DigitalWrite l 1]\<rparr>"
proof -
  from write_bits_frame [OF assms [unfolded init_unfold]] obtain ws where
    "s' = s\<lparr>ds := d, shcp := c, stcp := l, sreg_count := n,
        trace := trace s @ [PinMode d OUTPUT, PinMode c OUTPUT, PinMode l OUTPUT]\<rparr>
        \<lparr>shcp_reg := v, trace := (trace s @ [PinMode d OUTPUT, PinMode c OUTPUT, PinMode l OUTPUT])
           @ [DigitalWrite l 0, DigitalWrite d 0, DigitalWrite c 0] @ ws @ [DigitalWrite l 1]\<rparr>"
    by (auto simp: spec_latch_low_writes_def)
  then have "s' = \<lparr>ds = d, shcp = c, stcp = l, sreg_count = n, shcp_reg = v,
      trace = trace s @ [PinMode d OUTPUT, PinMode c OUTPUT, PinMode l OUTPUT,
                         DigitalWrite l 0, DigitalWrite d 0, DigitalWrite c 0] @ ws @ [DigitalWrite l 1]\<rparr>"
    by simp
  then show ?thesis by blast
qed

lemma spec_latch_high_writes_cong:
  assumes "ds s = ds t" "shcp s = shcp t" "stcp s = stcp t"
    and "sreg_count s = sreg_count t" "shcp_reg s = shcp_reg t"
  shows "spec_latch_high_writes s = spec_latch_high_writes t"
proof -
  have "spec_shift_writes s = spec_shift_writes t"
    using assms by (intro ext) (simp add: spec_shift_writes_def)
  then show ?thesis
    using assms by (simp add: spec_latch_high_writes_def spec_width_def)
qed

lemma init_ok:
  fixes n :: "'a::len word"
  assumes "0 \<le> sint n" and "4 * 2 ^ nat (sint n) \<le> LENGTH('a)"
  shows "sreg_init d c l v n s =
    Some \<lparr>ds = d, shcp = c, stcp = l, sreg_count = n, shcp_reg = v,
      trace = trace s @ [PinMode d OUTPUT, PinMode c OUTPUT, PinMode l OUTPUT] @
        [DigitalWrite l 0, DigitalWrite d 0, DigitalWrite c 0] @
        spec_latch_high_writes \<lparr>ds = d, shcp = c, stcp = l, sreg_count = n, shcp_reg = v, trace = []\<rparr>\<rparr>"
proof -
  let ?s0 = "s\<lparr>ds := d, shcp := c, stcp := l, sreg_count := n,
        trace := trace s @ [PinMode d OUTPUT, PinMode c OUTPUT, PinMode l OUTPUT]\<rparr>"
  have "0 \<le> sint (sreg_count ?s0)" and "spec_width ?s0 \<le> LENGTH('a)"
    using assms by (simp_all add: spec_width_def)
  from write_bits_ok [OF this, of v]
  have "sreg_init d c l v n s = Some (?s0\<lparr>shcp_reg := v,
      trace := trace ?s0 @ spec_latch_low_writes ?s0 @ spec_latch_high_writes (?s0\<lparr>shcp_reg := v\<rparr>)\<rparr>)"
    by (simp only: init_unfold)
  moreover have "spec_latch_high_writes (?s0\<lparr>shcp_reg := v\<rparr>) =
      spec_latch_high_writes \<lparr>ds = d, shcp = c, stcp = l, sreg_count = n, shcp_reg = v, trace = []\<rparr>"
    by (rule spec_latch_high_writes_cong) simp_all
  ultimately show ?thesis
    by (simp add: spec_latch_low_writes_def)
qed

lemma sint_small_numerals:
  assumes "4 \<le> LENGTH('a::len)"
  shows "sint (1 :: 'a word) = 1" and "sint (2 :: 'a word) = 2"
proof -
  from assms show "sint (1 :: 'a word) = 1" by simp
  have "sint (of_nat 2 :: 'a word) = int 2"
    using assms by (intro sint_of_nat_small) simp_all
  then show "sint (2 :: 'a word) = 2" by simp
qed

lemma bits_of_three:
  assumes "4 \<le> LENGTH('a::len)"
  shows "bit (3 :: 'a word) 0" and "bit (3 :: 'a word) 1" and "\<not> bit (3 :: 'a word) 2"
  using assms by (simp_all add: bit_simps)

lemma test_bit_at:
  fixes pin :: "'a::len word"
  assumes "sint pin = int k" and "k < LENGTH('a)"
  shows "sreg_test_bit pin s = Some (of_bool (bit (shcp_reg s) k))"
  using assms by (simp add: test_bit_eq)

lemma in_syncI:
  assumes "trace s = pre @ spec_latch_high_writes s"
  shows "in_sync s"
  unfolding in_sync_def using assms by (intro suffixI)

section \<open>latchLow\<close>

text \<open>
  C9. \<^verbatim>\<open>sreg_latch_low\<close> emits exactly three digital writes: the latch-clock pin, the
  data pin and the shift-clock pin, each driven low, in this order. It emits nothing else
  and leaves every static variable as it was, so it transfers no bit.
\<close>

theorem latch_low_three_writes:
  "sreg_latch_low s =
     s\<lparr>trace := trace s @
        [DigitalWrite (stcp s) 0, DigitalWrite (ds s) 0, DigitalWrite (shcp s) 0]\<rparr>"
  by (simp add: sreg_latch_low_def digitalWrite_def)

section \<open>latchHigh\<close>

text \<open>
  C1, as the code has it. Let \<open>N\<close> be the width of \<^verbatim>\<open>int\<close> and \<open>L\<close> the chain
  length in \<^verbatim>\<open>sreg_count_\<close>. For every \<open>L \<ge> 0\<close> with \<open>W = 4 << L \<le> N\<close>,
  \<^verbatim>\<open>sreg_latch_high\<close> returns and appends to the trace exactly the sequence of
  \<open>spec_latch_high_writes\<close>: for each bit index \<open>i\<close> from \<open>W - 1\<close> down to \<open>0\<close>,
  shift clock low, data to the value of bit \<open>i\<close> of the in-memory state, shift clock
  high, data low; then the latch clock high. When the latch pin is neither the data pin
  nor the shift-clock pin, the only write to it in that sequence is this last one: one
  latch-clock high and no latch-clock low. The static variables are left as they were.
\<close>

theorem latch_high_emits:
  fixes s :: "'a::len sreg"
  assumes "0 \<le> sint (sreg_count s)" and "spec_width s \<le> LENGTH('a)"
  shows "sreg_latch_high s = Some (s\<lparr>trace := trace s @ spec_latch_high_writes s\<rparr>) \<and>
         (stcp s \<noteq> ds s \<and> stcp s \<noteq> shcp s \<longrightarrow>
            writes_to (stcp s) (spec_latch_high_writes s) = [DigitalWrite (stcp s) 1])"
  using latch_high_ok [OF assms] latch_writes_of_push [of s] by simp

theorem latch_high_emits_witness:
  "0 \<le> sint (sreg_count (initial_state\<lparr>ds := 2, shcp := 3, stcp := 4, sreg_count := 1, shcp_reg := 3\<rparr> :: 16 sreg)) \<and>
   spec_width (initial_state\<lparr>ds := 2, shcp := 3, stcp := 4, sreg_count := 1, shcp_reg := 3\<rparr> :: 16 sreg) \<le> 16 \<and>
   sreg_latch_high (initial_state\<lparr>ds := 2, shcp := 3, stcp := 4, sreg_count := 1, shcp_reg := 3\<rparr> :: 16 sreg) =
     Some \<lparr>ds = 2, shcp = 3, stcp = 4, sreg_count = 1, shcp_reg = 3, trace =
       [DigitalWrite 3 0, DigitalWrite 2 0, DigitalWrite 3 1, DigitalWrite 2 0,
        DigitalWrite 3 0, DigitalWrite 2 0, DigitalWrite 3 1, DigitalWrite 2 0,
        DigitalWrite 3 0, DigitalWrite 2 0, DigitalWrite 3 1, DigitalWrite 2 0,
        DigitalWrite 3 0, DigitalWrite 2 0, DigitalWrite 3 1, DigitalWrite 2 0,
        DigitalWrite 3 0, DigitalWrite 2 0, DigitalWrite 3 1, DigitalWrite 2 0,
        DigitalWrite 3 0, DigitalWrite 2 0, DigitalWrite 3 1, DigitalWrite 2 0,
        DigitalWrite 3 0, DigitalWrite 2 1, DigitalWrite 3 1, DigitalWrite 2 0,
        DigitalWrite 3 0, DigitalWrite 2 1, DigitalWrite 3 1, DigitalWrite 2 0,
        DigitalWrite 4 1]\<rparr>"
proof -
  have r: "rev [0..<8::nat] = [7, 6, 5, 4, 3, 2, 1, 0]" by code_simp
  show ?thesis
    using latch_high_emits [of "initial_state\<lparr>ds := 2, shcp := 3, stcp := 4, sreg_count := 1, shcp_reg := 3\<rparr> :: 16 sreg"]
    by (simp add: initial_state_def spec_width_def spec_latch_high_writes_def spec_shift_writes_def r)
qed

text \<open>
  C1 does not hold for every chain length. On a 32-bit \<^verbatim>\<open>int\<close>, a chain of four
  registers fits the in-memory state (32 bits), but the loop starts at
  \<open>i = (4 << 4) - 1 = 63\<close> and \<^verbatim>\<open>sreg_test_bit(63)\<close> evaluates \<^verbatim>\<open>1 << 63\<close>,
  which is undefined: the state has no bit 63 whose value could be driven.
\<close>

theorem latch_high_chain_of_four_undefined:
  "sreg_latch_high (initial_state\<lparr>ds := 2, shcp := 3, stcp := 4, sreg_count := 4\<rparr> :: 32 sreg) = None"
  by code_simp

section \<open>The order of the bits in a push\<close>

text \<open>
  C4, as the code has it. With the chain length as in C1 and a data pin that is neither
  of the two clock pins, the data-pin writes of \<^verbatim>\<open>sreg_latch_high\<close> are, for
  \<open>i\<close> from \<open>W - 1\<close> down to \<open>0\<close>, the value of bit \<open>i\<close> and then low. The first
  data value driven is the value of bit \<open>W - 1\<close>; bit \<open>0\<close> is shifted out last.
\<close>

theorem push_shifts_top_bit_first:
  fixes s :: "'a::len sreg"
  assumes "0 \<le> sint (sreg_count s)" and "spec_width s \<le> LENGTH('a)"
    and "ds s \<noteq> shcp s" and "ds s \<noteq> stcp s"
  shows "sreg_latch_high s = Some (s\<lparr>trace := trace s @ spec_latch_high_writes s\<rparr>) \<and>
     writes_to (ds s) (spec_latch_high_writes s) =
       concat (map (\<lambda>i. [DigitalWrite (ds s) (of_bool (bit (shcp_reg s) i)), DigitalWrite (ds s) 0])
                   (rev [0..<spec_width s])) \<and>
     hd (writes_to (ds s) (spec_latch_high_writes s)) =
       DigitalWrite (ds s) (of_bool (bit (shcp_reg s) (spec_width s - 1)))"
  using latch_high_ok [OF assms(1,2)] data_writes_of_push [OF assms(3,4)]
  by (simp add: rev_upt_pos [OF spec_width_pos])

theorem push_shifts_top_bit_first_witness:
  "spec_width (initial_state\<lparr>ds := 2, shcp := 3, stcp := 4, sreg_count := 1, shcp_reg := 128\<rparr> :: 16 sreg) = 8 \<and>
   hd (writes_to 2 (spec_latch_high_writes
        (initial_state\<lparr>ds := 2, shcp := 3, stcp := 4, sreg_count := 1, shcp_reg := 128\<rparr> :: 16 sreg))) =
     DigitalWrite 2 1 \<and>
   sreg_test_bit 7 (initial_state\<lparr>ds := 2, shcp := 3, stcp := 4, sreg_count := 1, shcp_reg := 128\<rparr> :: 16 sreg) = Some 1"
proof -
  let ?s = "initial_state\<lparr>ds := 2, shcp := 3, stcp := 4, sreg_count := 1, shcp_reg := 128\<rparr> :: 16 sreg"
  have "0 \<le> sint (sreg_count ?s)" and "spec_width ?s \<le> LENGTH(16)"
    and "ds ?s \<noteq> shcp ?s" and "ds ?s \<noteq> stcp ?s"
    by (simp_all add: spec_width_def)
  from push_shifts_top_bit_first [OF this]
  have "hd (writes_to (ds ?s) (spec_latch_high_writes ?s)) =
      DigitalWrite (ds ?s) (of_bool (bit (shcp_reg ?s) (spec_width ?s - 1)))"
    by (elim conjE)
  then show ?thesis
    by (simp add: spec_width_def test_bit_eq)
qed

text \<open>
  C4 states that bit 0 is shifted out first. With one register and the in-memory state 1
  (bit 0 set, bits 1 to 7 clear), the data values driven are 0 seven times (bits 7 to
  1), each followed by the return to low, and the value 1 of bit 0 comes last.
\<close>

theorem bit_zero_is_shifted_last:
  "sreg_test_bit 0 (initial_state\<lparr>ds := 2, shcp := 3, stcp := 4, sreg_count := 1, shcp_reg := 1\<rparr> :: 16 sreg) = Some 1 \<and>
   map_option (\<lambda>s'. writes_to 2 (trace s'))
     (sreg_latch_high (initial_state\<lparr>ds := 2, shcp := 3, stcp := 4, sreg_count := 1, shcp_reg := 1\<rparr> :: 16 sreg)) =
     Some [DigitalWrite 2 0, DigitalWrite 2 0, DigitalWrite 2 0, DigitalWrite 2 0,
           DigitalWrite 2 0, DigitalWrite 2 0, DigitalWrite 2 0, DigitalWrite 2 0,
           DigitalWrite 2 0, DigitalWrite 2 0, DigitalWrite 2 0, DigitalWrite 2 0,
           DigitalWrite 2 0, DigitalWrite 2 0, DigitalWrite 2 1, DigitalWrite 2 0]"
  by code_simp

section \<open>writeBit\<close>

lemma write_bit_ok:
  fixes i :: "'a::len word"
  assumes "0 \<le> sint i" and "sint i < int LENGTH('a)"
  shows "\<exists>s'. sreg_write_bit i v s = Some s' \<and>
           sreg_test_bit i s' = Some (if v = 0 then 0 else 1) \<and>
           (\<forall>j. j \<noteq> i \<longrightarrow> sreg_test_bit j s' = sreg_test_bit j s)"
proof -
  let ?n = "nat (sint i)"
  define r where "r = (shcp_reg s AND NOT (push_bit ?n 1)) OR push_bit ?n (of_bool (v \<noteq> 0))"
  have n: "?n < LENGTH('a)" using assms by simp
  have r: "bit r j \<longleftrightarrow> (if j = ?n then v \<noteq> 0 else bit (shcp_reg s) j)" for j
    unfolding r_def by (rule bit_written [OF n])
  have w: "sreg_write_bit i v s = Some (s\<lparr>shcp_reg := r\<rparr>)"
    using assms by (simp add: write_bit_eq r_def)
  have "sreg_test_bit i (s\<lparr>shcp_reg := r\<rparr>) = Some (if v = 0 then 0 else 1)"
    using assms by (simp add: test_bit_eq r)
  moreover have "sreg_test_bit j (s\<lparr>shcp_reg := r\<rparr>) = sreg_test_bit j s" if "j \<noteq> i" for j
  proof (cases "0 \<le> sint j \<and> sint j < int LENGTH('a)")
    case True
    with that assms(1) have "nat (sint j) \<noteq> ?n" by (simp add: sint_nat_inj)
    then show ?thesis by (simp add: test_bit_eq r)
  next
    case False
    then show ?thesis by (auto simp: test_bit_eq)
  qed
  ultimately show ?thesis using w by blast
qed

text \<open>
  C2. Let \<open>N\<close> be the width of \<^verbatim>\<open>int\<close>. The in-memory state is one
  \<^verbatim>\<open>int\<close>, so a chain is one that fits it, \<open>8 * chainLength \<le> N\<close>, and its valid
  bit indices are those in \<open>[0, 8 * chainLength)\<close>. For every in-memory state, every
  such index \<open>i\<close> and every integer \<open>v\<close>: \<^verbatim>\<open>sreg_write_bit(i, v)\<close> returns, after
  it \<^verbatim>\<open>sreg_test_bit(i)\<close> is 1 if \<open>v\<close> is not zero and 0 if it is, and for every
  other index \<open>j\<close> \<^verbatim>\<open>sreg_test_bit(j)\<close> is what it was before the call.
\<close>

theorem write_bit_sets_only_that_bit:
  fixes i :: "'a::len word"
  assumes "0 \<le> sint i" and "sint i < 8 * sint (sreg_count s)"
    and "8 * sint (sreg_count s) \<le> int LENGTH('a)"
  shows "\<exists>s'. sreg_write_bit i v s = Some s' \<and>
           sreg_test_bit i s' = Some (if v = 0 then 0 else 1) \<and>
           (\<forall>j. j \<noteq> i \<longrightarrow> sreg_test_bit j s' = sreg_test_bit j s)"
proof -
  from assms(2,3) have "sint i < int LENGTH('a)" by linarith
  with assms(1) show ?thesis by (rule write_bit_ok)
qed

theorem write_bit_sets_only_that_bit_witness:
  "\<exists>s'. sreg_write_bit 5 1 (initial_state\<lparr>sreg_count := 1, shcp_reg := 3\<rparr> :: 16 sreg) = Some s' \<and>
      sreg_test_bit 5 s' = Some 1 \<and> sreg_test_all_bits s' = 35 \<and>
      sreg_test_bit 0 s' = sreg_test_bit 0 (initial_state\<lparr>sreg_count := 1, shcp_reg := 3\<rparr>)"
proof -
  let ?s = "initial_state\<lparr>sreg_count := 1, shcp_reg := 3\<rparr> :: 16 sreg"
  have "0 \<le> sint (5 :: 16 word)" and "sint (5 :: 16 word) < 8 * sint (sreg_count ?s)"
    and "8 * sint (sreg_count ?s) \<le> int LENGTH(16)"
    by simp_all
  from write_bit_sets_only_that_bit [OF this, of 1]
  obtain s' where s': "sreg_write_bit 5 1 ?s = Some s'" "sreg_test_bit 5 s' = Some 1"
      "\<forall>j. j \<noteq> 5 \<longrightarrow> sreg_test_bit j s' = sreg_test_bit j ?s"
    by auto
  from s'(3) have "sreg_test_bit 0 s' = sreg_test_bit 0 ?s" by simp
  moreover from s'(1) have "sreg_test_all_bits s' = 35"
    by (auto simp: write_bit_eq sreg_test_all_bits_def initial_state_def)
  ultimately show ?thesis using s'(1,2) by blast
qed

section \<open>invertBit\<close>

lemma invert_bit_ok:
  fixes i :: "'a::len word"
  assumes "0 \<le> sint i" and "sint i < int LENGTH('a)"
  shows "\<exists>s1. sreg_invert_bit i s = Some s1 \<and>
           sreg_test_bit i s1 = map_option lnot (sreg_test_bit i s) \<and>
           sreg_invert_bit i s1 = Some s"
proof -
  let ?n = "nat (sint i)"
  have n: "?n < LENGTH('a)" using assms by simp
  define b where "b = bit (shcp_reg s) ?n"
  define r1 where "r1 = (shcp_reg s AND NOT (push_bit ?n 1)) OR push_bit ?n (of_bool (\<not> b))"
  have r1: "bit r1 j \<longleftrightarrow> (if j = ?n then \<not> b else bit (shcp_reg s) j)" for j
    unfolding r1_def by (rule bit_written [OF n])
  have t: "sreg_test_bit i s = Some (of_bool b)"
    using assms by (simp add: test_bit_eq b_def)
  have l: "lnot (of_bool c :: 'a word) \<noteq> 0 \<longleftrightarrow> \<not> c" for c
    by (simp add: lnot_def)
  have i1: "sreg_invert_bit i s = Some (s\<lparr>shcp_reg := r1\<rparr>)"
    using assms by (simp add: sreg_invert_bit_def t write_bit_eq l r1_def)
  have t1: "sreg_test_bit i (s\<lparr>shcp_reg := r1\<rparr>) = Some (of_bool (\<not> b))"
    using assms by (simp add: test_bit_eq r1)
  have "bit ((r1 AND NOT (push_bit ?n 1)) OR push_bit ?n (of_bool b)) j = bit (shcp_reg s) j" for j
    unfolding bit_written [OF n] by (simp add: r1 b_def)
  then have "(r1 AND NOT (push_bit ?n 1)) OR push_bit ?n (of_bool b) = shcp_reg s"
    by (intro bit_eqI)
  then have i2: "sreg_invert_bit i (s\<lparr>shcp_reg := r1\<rparr>) = Some s"
    using assms by (simp add: sreg_invert_bit_def t1 write_bit_eq l)
  have "lnot (of_bool b :: 'a word) = of_bool (\<not> b)" by (simp add: lnot_def)
  with t t1 i1 i2 show ?thesis by simp
qed

lemma invert_bit_defined:
  fixes i :: "'a::len word"
  assumes "sreg_invert_bit i s = Some s1"
  shows "0 \<le> sint i \<and> sint i < int LENGTH('a)"
  using assms by (auto simp: sreg_invert_bit_def test_bit_eq split: if_splits)

text \<open>
  C6. A valid bit index is one the in-memory state has, \<open>0 \<le> i < N\<close> for an
  \<^verbatim>\<open>int\<close> of \<open>N\<close> bits; this covers \<open>[0, 8 * chainLength)\<close> for every chain
  that fits the \<^verbatim>\<open>int\<close>. For every state and every index: whenever
  \<^verbatim>\<open>sreg_invert_bit(i)\<close> returns, bit \<open>i\<close> tests as the negation of what it was,
  and a second \<^verbatim>\<open>sreg_invert_bit(i)\<close> returns and gives back the state before the
  first: the original value of bit \<open>i\<close>, and of every other bit. The call returns for
  every valid index.
\<close>

theorem invert_bit_twice:
  fixes i :: "'a::len word"
  shows "(\<forall>s1. sreg_invert_bit i s = Some s1 \<longrightarrow>
            sreg_test_bit i s1 = map_option lnot (sreg_test_bit i s) \<and>
            sreg_invert_bit i s1 = Some s) \<and>
         (0 \<le> sint i \<and> sint i < int LENGTH('a) \<longrightarrow> (\<exists>s1. sreg_invert_bit i s = Some s1))"
proof (intro conjI allI impI)
  fix s1 assume a: "sreg_invert_bit i s = Some s1"
  from invert_bit_defined [OF a] have "0 \<le> sint i" and "sint i < int LENGTH('a)" by simp_all
  from invert_bit_ok [OF this, of s] a
  show "sreg_test_bit i s1 = map_option lnot (sreg_test_bit i s)" and "sreg_invert_bit i s1 = Some s"
    by auto
next
  assume "0 \<le> sint i \<and> sint i < int LENGTH('a)"
  then have "0 \<le> sint i" and "sint i < int LENGTH('a)" by simp_all
  from invert_bit_ok [OF this, of s] show "\<exists>s1. sreg_invert_bit i s = Some s1" by blast
qed

theorem invert_bit_twice_witness:
  "sreg_invert_bit 1 (initial_state\<lparr>shcp_reg := 3\<rparr> :: 16 sreg) = Some (initial_state\<lparr>shcp_reg := 1\<rparr>) \<and>
   sreg_invert_bit 1 (initial_state\<lparr>shcp_reg := 1\<rparr> :: 16 sreg) = Some (initial_state\<lparr>shcp_reg := 3\<rparr>) \<and>
   sreg_test_bit 1 (initial_state\<lparr>shcp_reg := 3\<rparr> :: 16 sreg) = Some 1 \<and>
   sreg_test_bit 1 (initial_state\<lparr>shcp_reg := 1\<rparr> :: 16 sreg) = Some 0"
proof -
  have i: "sreg_invert_bit 1 (initial_state\<lparr>shcp_reg := 3\<rparr> :: 16 sreg) = Some (initial_state\<lparr>shcp_reg := 1\<rparr>)"
    by (simp add: sreg_invert_bit_def test_bit_eq write_bit_eq lnot_def initial_state_def)
  from invert_bit_twice [of 1 "initial_state\<lparr>shcp_reg := 3\<rparr> :: 16 sreg"] i
  have "sreg_invert_bit 1 (initial_state\<lparr>shcp_reg := 1\<rparr> :: 16 sreg) = Some (initial_state\<lparr>shcp_reg := 3\<rparr>)"
    by blast
  with i show ?thesis by (simp add: test_bit_eq)
qed


section \<open>writeBits\<close>

text \<open>
  C3. For every integer \<open>x\<close> and whatever the in-memory state was: whenever
  \<^verbatim>\<open>sreg_write_bits(x)\<close> returns, \<^verbatim>\<open>sreg_test_all_bits()\<close> after it is exactly
  \<open>x\<close>; and it does return when the chain length \<open>L\<close> is not negative and
  \<open>4 << L\<close> does not exceed the width of \<^verbatim>\<open>int\<close>, the chain lengths for which its
  shift loop is defined.
\<close>

theorem write_bits_then_test_all_bits:
  fixes s :: "'a::len sreg"
  shows "(\<forall>s'. sreg_write_bits x s = Some s' \<longrightarrow> sreg_test_all_bits s' = x) \<and>
         (0 \<le> sint (sreg_count s) \<and> spec_width s \<le> LENGTH('a) \<longrightarrow>
            (\<exists>s'. sreg_write_bits x s = Some s'))"
proof (intro conjI allI impI)
  fix s' assume "sreg_write_bits x s = Some s'"
  from write_bits_frame [OF this] show "sreg_test_all_bits s' = x"
    by (auto simp: sreg_test_all_bits_def)
next
  assume "0 \<le> sint (sreg_count s) \<and> spec_width s \<le> LENGTH('a)"
  then show "\<exists>s'. sreg_write_bits x s = Some s'"
    by (simp add: write_bits_ok)
qed

theorem write_bits_then_test_all_bits_witness:
  "\<exists>s'. sreg_write_bits 255 (initial_state\<lparr>ds := 2, shcp := 3, stcp := 4, sreg_count := 1, shcp_reg := 9\<rparr> :: 16 sreg) = Some s' \<and>
     sreg_test_all_bits s' = 255"
proof -
  let ?s = "initial_state\<lparr>ds := 2, shcp := 3, stcp := 4, sreg_count := 1, shcp_reg := 9\<rparr> :: 16 sreg"
  note t = write_bits_then_test_all_bits [of 255 ?s]
  have "0 \<le> sint (sreg_count ?s) \<and> spec_width ?s \<le> LENGTH(16)"
    by (simp add: spec_width_def)
  with t obtain s' where "sreg_write_bits 255 ?s = Some s'" by blast
  with t show ?thesis by blast
qed

section \<open>The latch operations leave the in-memory state alone\<close>

text \<open>
  C10. \<^verbatim>\<open>sreg_test_all_bits()\<close> is the same after \<^verbatim>\<open>sreg_latch_low()\<close> as
  before it, for every state. It is the same after \<^verbatim>\<open>sreg_latch_high()\<close> as before
  it whenever that call returns, and the call returns for the chain lengths of C3.
\<close>

theorem latches_keep_the_mirror:
  fixes s :: "'a::len sreg"
  shows "sreg_test_all_bits (sreg_latch_low s) = sreg_test_all_bits s \<and>
         (\<forall>s'. sreg_latch_high s = Some s' \<longrightarrow> sreg_test_all_bits s' = sreg_test_all_bits s) \<and>
         (0 \<le> sint (sreg_count s) \<and> spec_width s \<le> LENGTH('a) \<longrightarrow>
            (\<exists>s'. sreg_latch_high s = Some s'))"
proof (intro conjI allI impI)
  show "sreg_test_all_bits (sreg_latch_low s) = sreg_test_all_bits s"
    by (simp add: sreg_test_all_bits_def sreg_latch_low_def digitalWrite_def)
next
  fix s' assume "sreg_latch_high s = Some s'"
  from latch_high_frame [OF this] show "sreg_test_all_bits s' = sreg_test_all_bits s"
    by (auto simp: sreg_test_all_bits_def)
next
  assume "0 \<le> sint (sreg_count s) \<and> spec_width s \<le> LENGTH('a)"
  then show "\<exists>s'. sreg_latch_high s = Some s'"
    by (simp add: latch_high_ok)
qed

theorem latches_keep_the_mirror_witness:
  "sreg_test_all_bits (sreg_latch_low (initial_state\<lparr>ds := 2, shcp := 3, stcp := 4, sreg_count := 2, shcp_reg := 9\<rparr> :: 16 sreg)) = 9 \<and>
   (\<exists>s'. sreg_latch_high (initial_state\<lparr>ds := 2, shcp := 3, stcp := 4, sreg_count := 2, shcp_reg := 9\<rparr> :: 16 sreg) = Some s' \<and>
      sreg_test_all_bits s' = 9)"
proof -
  let ?s = "initial_state\<lparr>ds := 2, shcp := 3, stcp := 4, sreg_count := 2, shcp_reg := 9\<rparr> :: 16 sreg"
  note t = latches_keep_the_mirror [of ?s]
  have s: "sreg_test_all_bits ?s = 9" by (simp add: sreg_test_all_bits_def)
  have "0 \<le> sint (sreg_count ?s) \<and> spec_width ?s \<le> LENGTH(16)"
    by (simp add: spec_width_def)
  with t obtain s' where "sreg_latch_high ?s = Some s'" by blast
  with t s show ?thesis by auto
qed

section \<open>initialize\<close>

lemma init_pushes_ok:
  fixes n :: "'a::len word"
  assumes "0 \<le> sint n" and "4 * 2 ^ nat (sint n) \<le> LENGTH('a)"
  shows "\<exists>s'. sreg_init d c l v n s = Some s' \<and>
      ds s' = d \<and> shcp s' = c \<and> stcp s' = l \<and> sreg_count s' = n \<and>
      sreg_test_all_bits s' = v \<and>
      trace s' = trace s @ [PinMode d OUTPUT, PinMode c OUTPUT, PinMode l OUTPUT] @
                 spec_latch_low_writes s' @ spec_latch_high_writes s' \<and>
      (v = 3 \<longrightarrow> sreg_test_bit 0 s' = Some 1 \<and> sreg_test_bit 1 s' = Some 1 \<and>
                 sreg_test_bit 2 s' = Some 0)"
proof -
  let ?t = "\<lparr>ds = d, shcp = c, stcp = l, sreg_count = n, shcp_reg = v, trace = []\<rparr>"
  define s' where "s' = \<lparr>ds = d, shcp = c, stcp = l, sreg_count = n, shcp_reg = v,
      trace = trace s @ [PinMode d OUTPUT, PinMode c OUTPUT, PinMode l OUTPUT] @
        [DigitalWrite l 0, DigitalWrite d 0, DigitalWrite c 0] @ spec_latch_high_writes ?t\<rparr>"
  have i: "sreg_init d c l v n s = Some s'"
    unfolding s'_def by (rule init_ok [OF assms])
  have f: "ds s' = d" "shcp s' = c" "stcp s' = l" "sreg_count s' = n" "shcp_reg s' = v"
    by (simp_all add: s'_def)
  have hw: "spec_latch_high_writes s' = spec_latch_high_writes ?t"
    by (rule spec_latch_high_writes_cong) (simp_all add: f)
  have lw: "spec_latch_low_writes s' = [DigitalWrite l 0, DigitalWrite d 0, DigitalWrite c 0]"
    by (simp add: spec_latch_low_writes_def f)
  have tr: "trace s' = trace s @ [PinMode d OUTPUT, PinMode c OUTPUT, PinMode l OUTPUT] @
                 spec_latch_low_writes s' @ spec_latch_high_writes s'"
    unfolding hw lw by (simp add: s'_def)
  have len: "4 \<le> LENGTH('a)"
  proof -
    have "(1::nat) \<le> 2 ^ nat (sint n)" by simp
    with assms(2) show ?thesis by linarith
  qed
  have sc: "sreg_test_bit 0 s' = Some 1 \<and> sreg_test_bit 1 s' = Some 1 \<and> sreg_test_bit 2 s' = Some 0"
    if "v = 3"
  proof -
    have "sreg_test_bit 0 s' = Some (of_bool (bit (shcp_reg s') 0))"
      using len by (intro test_bit_at) simp_all
    moreover have "sreg_test_bit 1 s' = Some (of_bool (bit (shcp_reg s') 1))"
      using len sint_small_numerals(1) [OF len] by (intro test_bit_at) simp_all
    moreover have "sreg_test_bit 2 s' = Some (of_bool (bit (shcp_reg s') 2))"
      using len sint_small_numerals(2) [OF len] by (intro test_bit_at) simp_all
    ultimately show ?thesis
      using that bits_of_three [OF len] by (simp add: f)
  qed
  have "sreg_test_all_bits s' = v" by (simp add: sreg_test_all_bits_def f)
  with i f tr sc show ?thesis by blast
qed

text \<open>
  C8. \<^verbatim>\<open>sreg_init(ds, shcp, stcp, init_value, L)\<close> stores the three pins and the
  chain length, calls \<^verbatim>\<open>pinMode(pin, OUTPUT)\<close> for the data, shift-clock and latch
  pin, and then is \<^verbatim>\<open>sreg_write_bits(init_value)\<close>, the full push. For a chain
  length \<open>L \<ge> 0\<close> with \<open>4 << L\<close> within the width of \<^verbatim>\<open>int\<close> it returns; the
  three pins and the chain length are stored; the in-memory state is \<open>init_value\<close>; and
  the platform calls it adds are the three \<^verbatim>\<open>pinMode\<close> calls, the latch-low writes
  and the shift-and-latch sequence of \<open>init_value\<close>. With \<open>init_value = 0b00000011\<close>,
  bits 0 and 1 test as 1 and bit 2 as 0; the instance that follows the theorem is the
  scenario \<^verbatim>\<open>sreg_init(2, 3, 4, 0b00000011, 1)\<close> itself, on an \<^verbatim>\<open>int\<close> of
  16 bits.
\<close>

theorem init_configures_and_pushes:
  fixes n :: "'a::len word"
  shows "sreg_init d c l v n s =
           sreg_write_bits v (s\<lparr>ds := d, shcp := c, stcp := l, sreg_count := n,
              trace := trace s @ [PinMode d OUTPUT, PinMode c OUTPUT, PinMode l OUTPUT]\<rparr>) \<and>
         (0 \<le> sint n \<and> 4 * 2 ^ nat (sint n) \<le> LENGTH('a) \<longrightarrow>
           (\<exists>s'. sreg_init d c l v n s = Some s' \<and>
              ds s' = d \<and> shcp s' = c \<and> stcp s' = l \<and> sreg_count s' = n \<and>
              sreg_test_all_bits s' = v \<and>
              trace s' = trace s @ [PinMode d OUTPUT, PinMode c OUTPUT, PinMode l OUTPUT] @
                         spec_latch_low_writes s' @ spec_latch_high_writes s' \<and>
              (v = 3 \<longrightarrow> sreg_test_bit 0 s' = Some 1 \<and> sreg_test_bit 1 s' = Some 1 \<and>
                         sreg_test_bit 2 s' = Some 0)))"
proof (intro conjI impI)
  show "sreg_init d c l v n s =
           sreg_write_bits v (s\<lparr>ds := d, shcp := c, stcp := l, sreg_count := n,
              trace := trace s @ [PinMode d OUTPUT, PinMode c OUTPUT, PinMode l OUTPUT]\<rparr>)"
    by (rule init_unfold)
next
  assume "0 \<le> sint n \<and> 4 * 2 ^ nat (sint n) \<le> LENGTH('a)"
  then have "0 \<le> sint n" and "4 * 2 ^ nat (sint n) \<le> LENGTH('a)" by simp_all
  then show "\<exists>s'. sreg_init d c l v n s = Some s' \<and>
              ds s' = d \<and> shcp s' = c \<and> stcp s' = l \<and> sreg_count s' = n \<and>
              sreg_test_all_bits s' = v \<and>
              trace s' = trace s @ [PinMode d OUTPUT, PinMode c OUTPUT, PinMode l OUTPUT] @
                         spec_latch_low_writes s' @ spec_latch_high_writes s' \<and>
              (v = 3 \<longrightarrow> sreg_test_bit 0 s' = Some 1 \<and> sreg_test_bit 1 s' = Some 1 \<and>
                         sreg_test_bit 2 s' = Some 0)"
    by (rule init_pushes_ok)
qed

theorem init_configures_and_pushes_witness:
  "\<exists>s'. sreg_init 2 3 4 3 1 (initial_state :: 16 sreg) = Some s' \<and>
      ds s' = 2 \<and> shcp s' = 3 \<and> stcp s' = 4 \<and> sreg_count s' = 1 \<and>
      sreg_test_bit 0 s' = Some 1 \<and> sreg_test_bit 1 s' = Some 1 \<and> sreg_test_bit 2 s' = Some 0 \<and>
      take 6 (trace s') = [PinMode 2 OUTPUT, PinMode 3 OUTPUT, PinMode 4 OUTPUT,
                           DigitalWrite 4 0, DigitalWrite 2 0, DigitalWrite 3 0]"
proof -
  have "0 \<le> sint (1 :: 16 word) \<and> 4 * 2 ^ nat (sint (1 :: 16 word)) \<le> LENGTH(16)"
    by simp
  with init_configures_and_pushes [of 2 3 4 3 1 initial_state]
  obtain s' where s': "sreg_init 2 3 4 3 1 (initial_state :: 16 sreg) = Some s'"
    "ds s' = 2" "shcp s' = 3" "stcp s' = 4" "sreg_count s' = 1"
    "trace s' = trace (initial_state :: 16 sreg) @ [PinMode 2 OUTPUT, PinMode 3 OUTPUT, PinMode 4 OUTPUT] @
                 spec_latch_low_writes s' @ spec_latch_high_writes s'"
    "sreg_test_bit 0 s' = Some 1" "sreg_test_bit 1 s' = Some 1" "sreg_test_bit 2 s' = Some 0"
    by auto
  from s'(2-6) have "take 6 (trace s') = [PinMode 2 OUTPUT, PinMode 3 OUTPUT, PinMode 4 OUTPUT,
                           DigitalWrite 4 0, DigitalWrite 2 0, DigitalWrite 3 0]"
    by (simp add: initial_state_def spec_latch_low_writes_def)
  with s' show ?thesis by blast
qed


section \<open>Which calls write to the hardware\<close>

text \<open>
  C7. A completed \<^verbatim>\<open>sreg_write_bit\<close> or \<^verbatim>\<open>sreg_invert_bit\<close> leaves the trace
  of platform calls as it was: no digital write to any pin. Among the eight calls of the
  interface, a call that is not \<^verbatim>\<open>sreg_init\<close>, \<^verbatim>\<open>sreg_write_bits\<close>,
  \<^verbatim>\<open>sreg_latch_low\<close> or \<^verbatim>\<open>sreg_latch_high\<close> leaves the trace as it was, and
  each of these four appends at least one digital write.
\<close>

theorem only_hardware_calls_emit_writes:
  fixes s :: "'a::len sreg"
  assumes "run_call c s = Some (r, s')"
  shows "(memory_only c \<longrightarrow> trace s' = trace s) \<and>
         (\<not> emits_writes c \<longrightarrow> trace s' = trace s) \<and>
         (emits_writes c \<longrightarrow> (\<exists>ws p v. trace s' = trace s @ ws \<and> DigitalWrite p v \<in> set ws))"
proof (cases c)
  case (Init d k l v n)
  with assms have "sreg_init d k l v n s = Some s'" by auto
  from init_frame [OF this] obtain ws where
    "trace s' = trace s @ ([PinMode d OUTPUT, PinMode k OUTPUT, PinMode l OUTPUT,
        DigitalWrite l 0, DigitalWrite d 0, DigitalWrite k 0] @ ws @ [DigitalWrite l 1])"
    by auto
  moreover have "DigitalWrite l 1 \<in> set ([PinMode d OUTPUT, PinMode k OUTPUT, PinMode l OUTPUT,
        DigitalWrite l 0, DigitalWrite d 0, DigitalWrite k 0] @ ws @ [DigitalWrite l 1])"
    by simp
  ultimately show ?thesis using Init by auto
next
  case (TestBit p)
  with assms show ?thesis by auto
next
  case TestAllBits
  with assms show ?thesis by auto
next
  case (WriteBit p v)
  with assms show ?thesis by (auto simp: write_bit_eq split: if_splits)
next
  case (InvertBit p)
  with assms show ?thesis
    by (auto simp: sreg_invert_bit_def write_bit_eq split: if_splits Option.bind_splits)
next
  case (WriteBits v)
  with assms have "sreg_write_bits v s = Some s'" by auto
  from write_bits_frame [OF this] obtain ws where
    "trace s' = trace s @ (spec_latch_low_writes s @ ws @ [DigitalWrite (stcp s) 1])"
    by auto
  moreover have "DigitalWrite (stcp s) 1 \<in> set (spec_latch_low_writes s @ ws @ [DigitalWrite (stcp s) 1])"
    by simp
  ultimately show ?thesis using WriteBits by auto
next
  case LatchLow
  with assms have "trace s' = trace s @ [DigitalWrite (stcp s) 0, DigitalWrite (ds s) 0, DigitalWrite (shcp s) 0]"
    by (auto simp: sreg_latch_low_def digitalWrite_def)
  moreover have "DigitalWrite (stcp s) 0 \<in> set [DigitalWrite (stcp s) 0, DigitalWrite (ds s) 0, DigitalWrite (shcp s) 0]"
    by simp
  ultimately show ?thesis using LatchLow by auto
next
  case LatchHigh
  with assms have "sreg_latch_high s = Some s'" by auto
  from latch_high_frame [OF this] obtain ws where
    "trace s' = trace s @ (ws @ [DigitalWrite (stcp s) 1])"
    by auto
  moreover have "DigitalWrite (stcp s) 1 \<in> set (ws @ [DigitalWrite (stcp s) 1])"
    by simp
  ultimately show ?thesis using LatchHigh by auto
qed

theorem only_hardware_calls_emit_writes_witness:
  "run_call (WriteBit 5 1) (initial_state :: 16 sreg) = Some (Void, initial_state\<lparr>shcp_reg := 32\<rparr>) \<and>
   trace (initial_state\<lparr>shcp_reg := 32\<rparr> :: 16 sreg) = trace (initial_state :: 16 sreg) \<and>
   (\<exists>ws p v. trace (sreg_latch_low (initial_state :: 16 sreg)) = trace (initial_state :: 16 sreg) @ ws \<and>
       DigitalWrite p v \<in> set ws)"
proof -
  have w: "run_call (WriteBit 5 1) (initial_state :: 16 sreg) = Some (Void, initial_state\<lparr>shcp_reg := 32\<rparr>)"
    by (simp add: write_bit_eq initial_state_def)
  have l: "run_call LatchLow (initial_state :: 16 sreg) = Some (Void, sreg_latch_low initial_state)"
    by simp
  from only_hardware_calls_emit_writes [OF w] only_hardware_calls_emit_writes [OF l] w
  show ?thesis by simp
qed

section \<open>The in-memory state and the value last pushed\<close>

text \<open>
  C5, as the code has it. After a completed \<^verbatim>\<open>sreg_init\<close>,
  \<^verbatim>\<open>sreg_write_bits\<close> or \<^verbatim>\<open>sreg_latch_high\<close> (chain length \<open>L \<ge> 0\<close>,
  \<open>4 << L\<close> within the width of \<^verbatim>\<open>int\<close>) the most recent platform calls are a
  complete shift-and-latch sequence of the in-memory state as it now is. A completed
  \<^verbatim>\<open>sreg_test_bit\<close>, \<^verbatim>\<open>sreg_test_all_bits\<close> or \<^verbatim>\<open>sreg_latch_low\<close> leaves
  the in-memory state as it was. A completed \<^verbatim>\<open>sreg_write_bit\<close> or
  \<^verbatim>\<open>sreg_invert_bit\<close> makes no platform call: it may change the in-memory state,
  and the hardware keeps the value of the last push until the next one.
\<close>

theorem pushes_bring_hardware_to_mirror:
  fixes s :: "'a::len sreg"
  assumes "run_call c s = Some (r, s')"
  shows "(pushes c \<and> 0 \<le> sint (sreg_count s') \<and> spec_width s' \<le> LENGTH('a) \<longrightarrow> in_sync s') \<and>
         (\<not> pushes c \<and> \<not> memory_only c \<longrightarrow> sreg_test_all_bits s' = sreg_test_all_bits s) \<and>
         (memory_only c \<longrightarrow> trace s' = trace s \<and> sreg_count s' = sreg_count s)"
proof (cases c)
  case (Init d k l v n)
  with assms have i: "sreg_init d k l v n s = Some s'" by auto
  have "in_sync s'" if ok: "0 \<le> sint (sreg_count s')" "spec_width s' \<le> LENGTH('a)"
  proof -
    from init_frame [OF i] have n: "sreg_count s' = n" by auto
    from ok have "0 \<le> sint n" and "4 * 2 ^ nat (sint n) \<le> LENGTH('a)"
      by (simp_all add: n [symmetric] spec_width_def)
    from init_ok [OF this, of d k l v s] i
    have s': "s' = \<lparr>ds = d, shcp = k, stcp = l, sreg_count = n, shcp_reg = v,
      trace = trace s @ [PinMode d OUTPUT, PinMode k OUTPUT, PinMode l OUTPUT] @
        [DigitalWrite l 0, DigitalWrite d 0, DigitalWrite k 0] @
        spec_latch_high_writes \<lparr>ds = d, shcp = k, stcp = l, sreg_count = n, shcp_reg = v, trace = []\<rparr>\<rparr>"
      by simp
    have hw: "spec_latch_high_writes s' =
        spec_latch_high_writes \<lparr>ds = d, shcp = k, stcp = l, sreg_count = n, shcp_reg = v, trace = []\<rparr>"
      by (rule spec_latch_high_writes_cong) (simp_all add: s')
    have "trace s' = (trace s @ [PinMode d OUTPUT, PinMode k OUTPUT, PinMode l OUTPUT,
        DigitalWrite l 0, DigitalWrite d 0, DigitalWrite k 0]) @ spec_latch_high_writes s'"
      unfolding hw by (simp add: s')
    then show ?thesis by (rule in_syncI)
  qed
  with Init show ?thesis by simp
next
  case (TestBit p)
  with assms show ?thesis by auto
next
  case TestAllBits
  with assms show ?thesis by auto
next
  case (WriteBit p v)
  with assms show ?thesis by (auto simp: write_bit_eq split: if_splits)
next
  case (InvertBit p)
  with assms show ?thesis
    by (auto simp: sreg_invert_bit_def write_bit_eq split: if_splits Option.bind_splits)
next
  case (WriteBits v)
  with assms have w: "sreg_write_bits v s = Some s'" by auto
  have "in_sync s'" if ok: "0 \<le> sint (sreg_count s')" "spec_width s' \<le> LENGTH('a)"
  proof -
    from write_bits_frame [OF w] have n: "sreg_count s' = sreg_count s" by auto
    from ok have "0 \<le> sint (sreg_count s)" and "spec_width s \<le> LENGTH('a)"
      by (simp_all add: n spec_width_def)
    from write_bits_ok [OF this, of v] w
    have s': "s' = s\<lparr>shcp_reg := v,
        trace := trace s @ spec_latch_low_writes s @ spec_latch_high_writes (s\<lparr>shcp_reg := v\<rparr>)\<rparr>"
      by simp
    have hw: "spec_latch_high_writes s' = spec_latch_high_writes (s\<lparr>shcp_reg := v\<rparr>)"
      by (rule spec_latch_high_writes_cong) (simp_all add: s')
    have "trace s' = (trace s @ spec_latch_low_writes s) @ spec_latch_high_writes s'"
      unfolding hw by (simp add: s')
    then show ?thesis by (rule in_syncI)
  qed
  with WriteBits show ?thesis by simp
next
  case LatchLow
  with assms show ?thesis
    by (auto simp: sreg_latch_low_def digitalWrite_def sreg_test_all_bits_def)
next
  case LatchHigh
  with assms have h: "sreg_latch_high s = Some s'" by auto
  have "in_sync s'" if ok: "0 \<le> sint (sreg_count s')" "spec_width s' \<le> LENGTH('a)"
  proof -
    from latch_high_frame [OF h] have n: "sreg_count s' = sreg_count s" by auto
    from ok have "0 \<le> sint (sreg_count s)" and "spec_width s \<le> LENGTH('a)"
      by (simp_all add: n spec_width_def)
    from latch_high_ok [OF this] h
    have s': "s' = s\<lparr>trace := trace s @ spec_latch_high_writes s\<rparr>" by simp
    have hw: "spec_latch_high_writes s' = spec_latch_high_writes s"
      by (rule spec_latch_high_writes_cong) (simp_all add: s')
    have "trace s' = trace s @ spec_latch_high_writes s'"
      unfolding hw by (simp add: s')
    then show ?thesis by (rule in_syncI)
  qed
  with LatchHigh show ?thesis by simp
qed

theorem pushes_bring_hardware_to_mirror_witness:
  "(\<exists>s'. run_call (WriteBits 5) (initial_state\<lparr>ds := 2, shcp := 3, stcp := 4, sreg_count := 1\<rparr> :: 16 sreg) = Some (Void, s') \<and>
      in_sync s' \<and> sreg_test_all_bits s' = 5) \<and>
   (\<exists>s'. run_call (WriteBit 0 1) (initial_state\<lparr>ds := 2, shcp := 3, stcp := 4, sreg_count := 1\<rparr> :: 16 sreg) = Some (Void, s') \<and>
      trace s' = [] \<and> sreg_test_all_bits s' = 1)"
proof -
  let ?s = "initial_state\<lparr>ds := 2, shcp := 3, stcp := 4, sreg_count := 1\<rparr> :: 16 sreg"
  have ok: "0 \<le> sint (sreg_count ?s)" "spec_width ?s \<le> LENGTH(16)"
    by (simp_all add: spec_width_def)
  define s1 where "s1 = ?s\<lparr>shcp_reg := 5,
        trace := trace ?s @ spec_latch_low_writes ?s @ spec_latch_high_writes (?s\<lparr>shcp_reg := 5\<rparr>)\<rparr>"
  have r1: "run_call (WriteBits 5) ?s = Some (Void, s1)"
    unfolding s1_def using write_bits_ok [OF ok, of 5] by simp
  have ok1: "pushes (WriteBits 5 :: 16 word call) \<and> 0 \<le> sint (sreg_count s1) \<and> spec_width s1 \<le> LENGTH(16)"
    by (simp add: s1_def spec_width_def)
  from pushes_bring_hardware_to_mirror [OF r1] ok1 have "in_sync s1" by blast
  moreover have "sreg_test_all_bits s1 = 5" by (simp add: s1_def sreg_test_all_bits_def)
  moreover have r2: "run_call (WriteBit 0 1) ?s = Some (Void, ?s\<lparr>shcp_reg := 1\<rparr>)"
    by (simp add: write_bit_eq initial_state_def)
  moreover from pushes_bring_hardware_to_mirror [OF r2]
  have "trace (?s\<lparr>shcp_reg := 1\<rparr>) = trace ?s" by simp
  moreover have "sreg_test_all_bits (?s\<lparr>shcp_reg := 1\<rparr>) = 1" "trace ?s = []"
    by (simp_all add: sreg_test_all_bits_def initial_state_def)
  ultimately show ?thesis using r1 by auto
qed

text \<open>
  C5 does not hold after \<^verbatim>\<open>sreg_write_bit\<close>. \<^verbatim>\<open>sreg_init(2, 3, 4, 0, 1)\<close>
  pushes the value 0 and leaves the in-memory state 0, in step with the hardware. A
  following \<^verbatim>\<open>sreg_write_bit(0, 1)\<close> completes with the in-memory state 1, while
  the platform calls made are the same as before it: the value last pushed to the
  hardware is still 0, and the in-memory state is no longer the one of the last push.
\<close>

theorem write_bit_leaves_hardware_behind:
  "map_option sreg_test_all_bits (run_calls [Init 2 3 4 0 1] (initial_state :: 16 sreg)) = Some 0 \<and>
   map_option in_sync (run_calls [Init 2 3 4 0 1] (initial_state :: 16 sreg)) = Some True \<and>
   map_option sreg_test_all_bits
     (run_calls [Init 2 3 4 0 1, WriteBit 0 1] (initial_state :: 16 sreg)) = Some 1 \<and>
   map_option in_sync
     (run_calls [Init 2 3 4 0 1, WriteBit 0 1] (initial_state :: 16 sreg)) = Some False \<and>
   map_option trace (run_calls [Init 2 3 4 0 1, WriteBit 0 1] (initial_state :: 16 sreg)) =
     map_option trace (run_calls [Init 2 3 4 0 1] (initial_state :: 16 sreg))"
  by code_simp

end
